theory Spec2Isabelle
  imports Main "HOL-Library.Sublist" "HOL-Library.Char_ord" "HOL-Library.List_Lexorder"
begin

section \<open>License tasks of \<^verbatim>\<open>tasks/go.py\<close>\<close>

text \<open>
  The theory embeds the license tasks of \<^verbatim>\<open>tasks/go.py\<close>: \<^verbatim>\<open>get_licenses_list\<close>,
  \<^verbatim>\<open>lint_licenses\<close>, \<^verbatim>\<open>generate_licenses\<close> and \<^verbatim>\<open>lint_licenses_old\<close>.

  A Python \<^verbatim>\<open>str\<close> is a \<open>string\<close>: one \<open>char\<close> per code point, for text whose code points
  are below 256. Python 3 semantics are taken for text files (universal newlines when
  reading, \<^verbatim>\<open>os.linesep\<close> when writing) and for \<^verbatim>\<open>str.rstrip\<close>.
\<close>

subsection \<open>Strings\<close>

definition LF :: char where
  "LF = CHR 0x0A"

definition CR :: char where
  "CR = CHR 0x0D"

text \<open>\<^verbatim>\<open>str.isspace\<close> on one character, for code points below 256.\<close>

definition isspace :: "char \<Rightarrow> bool" where
  "isspace c \<longleftrightarrow> c \<in> set [CHR 0x09, CHR 0x0A, CHR 0x0B, CHR 0x0C, CHR 0x0D,
     CHR 0x1C, CHR 0x1D, CHR 0x1E, CHR 0x1F, CHR 0x20, CHR 0x85, CHR 0xA0]"

text \<open>\<^verbatim>\<open>s.rstrip()\<close>: every trailing whitespace character is removed.\<close>

definition rstrip :: "string \<Rightarrow> string" where
  "rstrip s = rev (dropWhile isspace (rev s))"

text \<open>\<^verbatim>\<open>s.startswith(p)\<close>.\<close>

definition startswith :: "string \<Rightarrow> string \<Rightarrow> bool" where
  "startswith s p \<longleftrightarrow> prefix p s"

text \<open>\<^verbatim>\<open>s.find(sub)\<close>: the lowest index at which \<open>sub\<close> occurs in \<open>s\<close>, or \<open>-1\<close>.\<close>

fun str_find :: "string \<Rightarrow> string \<Rightarrow> int" where
  "str_find [] sub = (if sub = [] then 0 else - 1)"
| "str_find (c # cs) sub =
     (if prefix sub (c # cs) then 0
      else (let i = str_find cs sub in if i = - 1 then - 1 else i + 1))"

text \<open>\<^verbatim>\<open>sub in s\<close> for two strings.\<close>

definition str_contains :: "string \<Rightarrow> string \<Rightarrow> bool" where
  "str_contains sub s \<longleftrightarrow> str_find s sub \<noteq> - 1"

text \<open>\<^verbatim>\<open>s.split(sep)\<close> for a separator of one character: the result is never empty, and
  two adjacent separators give an empty string.\<close>

fun str_split :: "string \<Rightarrow> char \<Rightarrow> string list" where
  "str_split [] sep = [ [] ]"
| "str_split (c # cs) sep =
     (if c = sep then [] # str_split cs sep
      else (case str_split cs sep of
              [] \<Rightarrow> [ [c] ]
            | w # ws \<Rightarrow> (c # w) # ws))"

text \<open>\<^verbatim>\<open>sep.join(xs)\<close>.\<close>

fun str_join :: "string \<Rightarrow> string list \<Rightarrow> string" where
  "str_join sep [] = []"
| "str_join sep [x] = x"
| "str_join sep (x # y # ys) = x @ sep @ str_join sep (y # ys)"

subsection \<open>Text files\<close>

text \<open>
  The file system maps a file name to the characters stored in the file. Reading in text
  mode translates \<^verbatim>\<open>\r\n\<close> and a lone \<^verbatim>\<open>\r\<close> to \<^verbatim>\<open>\n\<close>; writing in text mode
  translates \<^verbatim>\<open>\n\<close> to \<^verbatim>\<open>os.linesep\<close>, which is \<^verbatim>\<open>\r\n\<close> where \<^verbatim>\<open>sys.platform\<close> is
  \<^verbatim>\<open>win32\<close> and \<^verbatim>\<open>\n\<close> elsewhere. The flag \<open>win32\<close> of the tasks below stands for
  \<^verbatim>\<open>sys.platform == 'win32'\<close>.
\<close>

type_synonym filesystem = "string \<rightharpoonup> string"

fun universal_newlines :: "string \<Rightarrow> string" where
  "universal_newlines [] = []"
| "universal_newlines [c] = (if c = CR then [LF] else [c])"
| "universal_newlines (c # d # ds) =
     (if c = CR then (if d = LF then LF # universal_newlines ds
                      else LF # universal_newlines (d # ds))
      else c # universal_newlines (d # ds))"

definition linesep :: "bool \<Rightarrow> string" where
  "linesep win32 = (if win32 then [CR, LF] else [LF])"

definition write_text :: "bool \<Rightarrow> string \<Rightarrow> string" where
  "write_text win32 s = concat (map (\<lambda>c. if c = LF then linesep win32 else [c]) s)"

text \<open>Iterating over a text file: each line keeps its \<^verbatim>\<open>\n\<close>; a last line without
  one is a line too.\<close>

fun readlines :: "string \<Rightarrow> string list" where
  "readlines [] = []"
| "readlines (c # cs) =
     (if c = LF then [LF] # readlines cs
      else (case readlines cs of
              [] \<Rightarrow> [ [c] ]
            | l # ls \<Rightarrow> (c # l) # ls))"

subsection \<open>Errors and the discovery tool\<close>

text \<open>
  \<open>Exit\<close> is invoke's \<^verbatim>\<open>Exit(message, code)\<close>; the other errors are the exceptions that
  the modelled statements can raise. The two messages of \<^verbatim>\<open>lint_licenses_old\<close> are kept
  by their arguments.
\<close>

datatype message =
    EmptyLicense "string option"
  | Outdated "string set" "string set"

datatype error =
    Exit "message option" int
  | IOError
  | StopIteration
  | UnexpectedExit
  | KeyError
  | TypeError
  | AttributeError

text \<open>
  \<^verbatim>\<open>ctx.run('.../bin/wwhrd list --no-color', hide='err')\<close> runs the discovery tool. What
  the tool does is an input of the model: either the command fails and \<^verbatim>\<open>ctx.run\<close> raises,
  or it returns a result whose \<^verbatim>\<open>stderr\<close> is the captured text.
\<close>

datatype run_result =
    RunFailed
  | Result string

subsection \<open>\<^verbatim>\<open>get_licenses_list\<close>\<close>

definition found_license :: string where
  \<open>found_license = ''msg="Found License"''\<close>

definition bootstrap :: string where
  \<open>bootstrap = ''core,"github.com/frapposelli/wwhrd",MIT''\<close>

text \<open>\<^verbatim>\<open>"core,{},{}".format(package, license)\<close>.\<close>

definition format_entry :: "string \<Rightarrow> string \<Rightarrow> string" where
  "format_entry package license = ''core,'' @ package @ '','' @ license"

text \<open>The inner loop over the values of one line, with the variables \<^verbatim>\<open>license\<close>,
  \<^verbatim>\<open>package\<close> and \<^verbatim>\<open>licenses\<close> as it updates them.\<close>

fun scan_vals :: "string list \<Rightarrow> string \<Rightarrow> string \<Rightarrow> string list \<Rightarrow> string list" where
  "scan_vals [] license package licenses = licenses"
| "scan_vals (val # vals) license package licenses =
     (if startswith val ''license='' then
        scan_vals vals (drop (length ''license='') val) package licenses
      else if startswith val ''package='' then
        (let package' = drop (length ''package='') val
         in scan_vals vals license package' (licenses @ [format_entry package' license]))
      else scan_vals vals license package licenses)"

text \<open>The values of a line: \<^verbatim>\<open>line[index + len('msg="Found License"') :].split(" ")\<close>.\<close>

definition line_vals :: "string \<Rightarrow> int \<Rightarrow> string list" where
  "line_vals line index =
     str_split (drop (nat (index + int (length found_license))) line) CHR '' ''"

text \<open>The outer loop over the lines of \<^verbatim>\<open>result.stderr\<close>.\<close>

fun scan_lines :: "string list \<Rightarrow> string list \<Rightarrow> string list" where
  "scan_lines [] licenses = licenses"
| "scan_lines (line # lines) licenses =
     (let index = str_find line found_license
      in if index = - 1 then scan_lines lines licenses
         else scan_lines lines (scan_vals (line_vals line index) [] [] licenses))"

definition get_licenses_list :: "run_result \<Rightarrow> error + string list" where
  "get_licenses_list r =
     (case r of
        RunFailed \<Rightarrow> Inl UnexpectedExit
      | Result stderr \<Rightarrow>
          (let licenses = [bootstrap];
               licenses = (if stderr \<noteq> [] then scan_lines (str_split stderr LF) licenses
                           else licenses)
           in Inr (sort licenses)))"

subsection \<open>\<^verbatim>\<open>lint_licenses\<close>\<close>

definition license_file :: string where
  "license_file = ''LICENSE-3rdparty.csv''"

text \<open>
  The \<^verbatim>\<open>with open(file, 'r')\<close> block: \<^verbatim>\<open>open\<close> raises when the file is missing,
  \<^verbatim>\<open>next(f)\<close> skips the header line and raises \<^verbatim>\<open>StopIteration\<close> when there is none,
  and every other line is appended after \<^verbatim>\<open>rstrip()\<close>.
\<close>

definition read_licenses :: "filesystem \<Rightarrow> error + string list" where
  "read_licenses fs =
     (case fs license_file of
        None \<Rightarrow> Inl IOError
      | Some raw \<Rightarrow>
          (case readlines (universal_newlines raw) of
             [] \<Rightarrow> Inl StopIteration
           | header # lines \<Rightarrow> Inr (map rstrip lines)))"

definition ignore_licenses :: "string list" where
  "ignore_licenses = [''github.com/shirou/gopsutil'']"

text \<open>The \<^verbatim>\<open>win32\<close> block: \<^verbatim>\<open>to_removed\<close> collects, for each ignored name in turn, the
  recorded entries that contain it; the printed lines and the remaining entries are
  returned.\<close>

definition to_removed :: "string list \<Rightarrow> string list" where
  "to_removed licenses =
     concat (map (\<lambda>ignore. filter (\<lambda>license. str_contains ignore license) licenses)
       ignore_licenses)"

definition hack_windows :: "bool \<Rightarrow> string list \<Rightarrow> string list \<times> string list" where
  "hack_windows verbose licenses =
     ((if verbose then map (\<lambda>license. ''[hack-windows] ignore: '' @ license)
         (to_removed licenses) else []),
      filter (\<lambda>x. x \<notin> set (to_removed licenses)) licenses)"

text \<open>The two comprehensions, under the names the source gives their results:
  \<^verbatim>\<open>removed_licenses\<close> is printed with \<^verbatim>\<open>+\<close> (the spec's \<open>missing\<close>) and
  \<^verbatim>\<open>added_licenses\<close> with \<^verbatim>\<open>-\<close> (the spec's \<open>extra\<close>).\<close>

definition removed_licenses :: "string list \<Rightarrow> string list \<Rightarrow> string list" where
  "removed_licenses new_licenses licenses = filter (\<lambda>ele. ele \<notin> set licenses) new_licenses"

definition added_licenses :: "string list \<Rightarrow> string list \<Rightarrow> string list" where
  "added_licenses licenses new_licenses = filter (\<lambda>ele. ele \<notin> set new_licenses) licenses"

text \<open>The task returns the lines it prints and how it ends: \<open>Inr ()\<close> when it returns,
  \<open>Inl\<close> the exception otherwise.\<close>

definition lint_licenses ::
  "bool \<Rightarrow> bool \<Rightarrow> filesystem \<Rightarrow> run_result \<Rightarrow> string list \<times> (error + unit)" where
  "lint_licenses win32 verbose fs r =
     (let out = [''Verify licenses''] in
      case read_licenses fs of
        Inl e \<Rightarrow> (out, Inl e)
      | Inr licenses \<Rightarrow>
          (case get_licenses_list r of
             Inl e \<Rightarrow> (out, Inl e)
           | Inr new_licenses \<Rightarrow>
               (let (hack_out, licenses) =
                      (if win32 then hack_windows verbose licenses else ([], licenses));
                    removed = removed_licenses new_licenses licenses;
                    added = added_licenses licenses new_licenses;
                    out = out @ hack_out @ map (\<lambda>license. ''+ '' @ license) removed
                            @ map (\<lambda>license. ''- '' @ license) added
                in if length removed + length added > 0
                   then (out @ [''licenses are not up-to-date''], Inl (Exit None 1))
                   else (out @ [''licenses ok''], Inr ()))))"

subsection \<open>\<^verbatim>\<open>generate_licenses\<close>\<close>

definition header_row :: string where
  "header_row = ''Component,Origin,License'' @ [LF]"

text \<open>
  \<^verbatim>\<open>open(filename, 'w')\<close> raises when the file cannot be opened for writing (a directory
  of the name that does not exist, an empty name, a file that may not be written): nothing
  is written or printed then. Which names can be opened is an input of the model, the
  predicate \<open>writable\<close>. When the file opens it is emptied, and the header is written before
  \<^verbatim>\<open>get_licenses_list\<close> is called; when that call raises, the \<^verbatim>\<open>with\<close> block closes the
  file with what was written so far. The task returns the file system, the printed lines
  and how it ends.
\<close>

definition manifest_text :: "string list \<Rightarrow> string" where
  "manifest_text licenses = header_row @ concat (map (\<lambda>license. license @ [LF]) licenses)"

definition generate_licenses ::
  "bool \<Rightarrow> (string \<Rightarrow> bool) \<Rightarrow> string \<Rightarrow> bool \<Rightarrow> filesystem \<Rightarrow> run_result
     \<Rightarrow> filesystem \<times> string list \<times> (error + unit)" where
  "generate_licenses win32 writable filename verbose fs r =
     (if \<not> writable filename then (fs, [], Inl IOError)
      else
        (case get_licenses_list r of
           Inl e \<Rightarrow> (fs(filename \<mapsto> write_text win32 header_row), [], Inl e)
         | Inr licenses \<Rightarrow>
             (fs(filename \<mapsto> write_text win32 (manifest_text licenses)),
              (if verbose then licenses else []) @ [''licenses files generated''],
              Inr ())))"

subsection \<open>\<^verbatim>\<open>lint_licenses_old\<close>\<close>

text \<open>
  A row of \<^verbatim>\<open>csv.DictReader\<close> is a dictionary from the header's names to the fields of
  the row, \<^verbatim>\<open>None\<close> for a field the row is too short to have. The reader belongs to the
  standard library: what it makes of the text of the file is a parameter.
\<close>

type_synonym row = "string \<rightharpoonup> string option"

definition NON_GO_DEPS :: "string set" where
  "NON_GO_DEPS = {''github.com/codemirror/CodeMirror'', ''github.com/FortAwesome/Font-Awesome'',
     ''github.com/jquery/jquery''}"

fun read_go_sum :: "string list \<Rightarrow> string set \<Rightarrow> string set" where
  "read_go_sum [] go_deps = go_deps"
| "read_go_sum (line # lines) go_deps =
     (let gopkg = str_split line CHR '' ''
      in if length gopkg \<noteq> 3 then read_go_sum lines go_deps
         else read_go_sum lines (insert (hd gopkg) go_deps))"

text \<open>The loop over the rows: \<^verbatim>\<open>len(entry['License'])\<close> raises on a missing key and on
  \<^verbatim>\<open>None\<close>, the message of \<^verbatim>\<open>Exit\<close> formats \<^verbatim>\<open>entry['Origin']\<close> whatever it is, and
  \<^verbatim>\<open>entry['Origin'].split\<close> raises on \<^verbatim>\<open>None\<close>.\<close>

fun check_entries ::
  "row list \<Rightarrow> string list \<Rightarrow> string set \<Rightarrow> string list \<times> (error + string set)" where
  "check_entries [] out license_deps = (out, Inr license_deps)"
| "check_entries (entry # entries) out license_deps =
     (case entry ''License'' of
        None \<Rightarrow> (out, Inl KeyError)
      | Some None \<Rightarrow> (out, Inl TypeError)
      | Some (Some license) \<Rightarrow>
          (if length license = 0 then
             (case entry ''Origin'' of
                None \<Rightarrow> (out, Inl KeyError)
              | Some origin \<Rightarrow> (out, Inl (Exit (Some (EmptyLicense origin)) 1)))
           else
             (case entry ''Origin'' of
                None \<Rightarrow> (out, Inl KeyError)
              | Some None \<Rightarrow> (out, Inl AttributeError)
              | Some (Some origin) \<Rightarrow>
                  (let entrysplit = take 3 (str_split origin CHR ''/'');
                       dep = str_join ''/'' entrysplit
                   in check_entries entries (out @ [dep]) (insert dep license_deps)))))"

definition lint_licenses_old ::
  "(string \<Rightarrow> row list) \<Rightarrow> filesystem \<Rightarrow> string list \<times> (error + unit)" where
  "lint_licenses_old DictReader fs =
     (case fs ''go.sum'' of
        None \<Rightarrow> ([], Inl IOError)
      | Some go_sum \<Rightarrow>
          (let go_deps = read_go_sum (readlines (universal_newlines go_sum)) {};
               deps = go_deps \<union> NON_GO_DEPS
           in case fs license_file of
                None \<Rightarrow> ([], Inl IOError)
              | Some raw \<Rightarrow>
                  (case check_entries (DictReader (universal_newlines raw)) [] {} of
                     (out, Inl e) \<Rightarrow> (out, Inl e)
                   | (out, Inr license_deps) \<Rightarrow>
                       (if deps \<noteq> license_deps
                        then (out, Inl (Exit (Some (Outdated (deps - license_deps)
                                                  (license_deps - deps))) 1))
                        else (out, Inr ())))))"

subsection \<open>The entries of a marker line, as the specification words them\<close>

text \<open>
  These definitions are not taken from the loop of \<^verbatim>\<open>get_licenses_list\<close>; they say by
  position which entries a line gives, for comparison with the loop. The tokens of a
  marker line are the values that the loop runs over. \<open>recent_license initial earlier\<close> is
  the value of the last \<^verbatim>\<open>license=\<close> token among the tokens \<open>earlier\<close>, and \<open>initial\<close>
  when there is none; \<open>package_positions\<close> lists the positions of the \<^verbatim>\<open>package=\<close>
  tokens; \<open>claimed_entries\<close> has one entry for each such position, made of that token's
  value and the most recent license value before it, the empty string when there is none.
\<close>

definition license_tokens :: "string list \<Rightarrow> string list" where
  "license_tokens vals = filter (\<lambda>val. startswith val ''license='') vals"

definition recent_license :: "string \<Rightarrow> string list \<Rightarrow> string" where
  "recent_license initial earlier =
     (case license_tokens earlier of
        [] \<Rightarrow> initial
      | _ # _ \<Rightarrow> drop (length ''license='') (last (license_tokens earlier)))"

definition package_positions :: "string list \<Rightarrow> nat list" where
  "package_positions vals = filter (\<lambda>j. startswith (vals ! j) ''package='') [0..<length vals]"

definition claimed_entries_from :: "string \<Rightarrow> string list \<Rightarrow> string list" where
  "claimed_entries_from initial vals =
     map (\<lambda>j. format_entry (drop (length ''package='') (vals ! j))
                 (recent_license initial (take j vals)))
       (package_positions vals)"

definition claimed_entries :: "string list \<Rightarrow> string list" where
  "claimed_entries vals = claimed_entries_from [] vals"

text \<open>The entries of any line: those of its tokens when it contains the marker, none
  otherwise.\<close>

definition line_entries :: "string \<Rightarrow> string list" where
  "line_entries line =
     (if sublist found_license line
      then claimed_entries (line_vals line (str_find line found_license)) else [])"

section \<open>Properties\<close>

subsection \<open>The parser only appends\<close>

lemma scan_vals_appends: "\<exists>ys. scan_vals vals license package licenses = licenses @ ys"
proof (induction vals arbitrary: license package licenses)
  case Nil
  then show ?case by simp
next
  case (Cons val vals)
  show ?case
  proof (cases "startswith val ''license=''")
    case True
    then show ?thesis using Cons.IH[of "drop (length ''license='') val" package licenses] by simp
  next
    case False
    note nl = this
    show ?thesis
    proof (cases "startswith val ''package=''")
      case True
      obtain ys where "scan_vals vals license (drop (length ''package='') val)
          (licenses @ [format_entry (drop (length ''package='') val) license])
          = (licenses @ [format_entry (drop (length ''package='') val) license]) @ ys"
        using Cons.IH by blast
      then show ?thesis using nl True by (simp add: Let_def)
    next
      case False
      then show ?thesis using nl Cons.IH[of license package licenses] by simp
    qed
  qed
qed

lemma scan_lines_appends: "\<exists>ys. scan_lines lines licenses = licenses @ ys"
proof (induction lines arbitrary: licenses)
  case Nil
  then show ?case by simp
next
  case (Cons line lines)
  show ?case
  proof (cases "str_find line found_license = - 1")
    case True
    then show ?thesis using Cons.IH[of licenses] by simp
  next
    case False
    obtain ys where ys: "scan_vals (line_vals line (str_find line found_license)) [] [] licenses = licenses @ ys"
      using scan_vals_appends by blast
    obtain zs where "scan_lines lines (licenses @ ys) = (licenses @ ys) @ zs"
      using Cons.IH by blast
    then show ?thesis using False ys by (simp add: Let_def)
  qed
qed

lemma scan_lines_no_marker:
  "\<forall>line \<in> set lines. str_find line found_license = - 1 \<Longrightarrow> scan_lines lines licenses = licenses"
  by (induction lines arbitrary: licenses) simp_all

lemma str_find_ge: "str_find s sub \<ge> - 1"
  by (induction s) (auto simp: Let_def)

lemma str_find_sublist: "str_find s sub \<noteq> - 1 \<longleftrightarrow> sublist sub s"
proof (induction s)
  case Nil
  then show ?case by simp
next
  case (Cons c cs)
  have ge: "str_find cs sub + 1 \<noteq> - 1" using str_find_ge[of cs sub] by arith
  show ?case
  proof (cases "prefix sub (c # cs)")
    case True
    then show ?thesis by (auto simp: sublist_Cons_right)
  next
    case False
    then show ?thesis using Cons.IH ge by (auto simp: Let_def sublist_Cons_right)
  qed
qed

subsection \<open>The two difference lists\<close>

text \<open>
  C1. For every pair of entry lists, \<^verbatim>\<open>removed_licenses\<close> (the spec's \<open>missing\<close>) holds
  exactly the entries of the new list that are not members of the recorded list, and
  \<^verbatim>\<open>added_licenses\<close> (the spec's \<open>extra\<close>) exactly the entries of the recorded list that are
  not members of the new list: the sets are the two set differences, and each list keeps
  the order and the multiplicity its entries have in the list it is taken from.
\<close>

theorem diff_lists_exact:
  "set (removed_licenses new_licenses licenses) = set new_licenses - set licenses
   \<and> set (added_licenses licenses new_licenses) = set licenses - set new_licenses
   \<and> subseq (removed_licenses new_licenses licenses) new_licenses
   \<and> subseq (added_licenses licenses new_licenses) licenses
   \<and> (\<forall>e. e \<notin> set licenses \<longrightarrow>
          count_list (removed_licenses new_licenses licenses) e = count_list new_licenses e)
   \<and> (\<forall>e. e \<notin> set new_licenses \<longrightarrow>
          count_list (added_licenses licenses new_licenses) e = count_list licenses e)"
proof -
  have c: "e \<notin> set ys \<Longrightarrow> count_list (filter (\<lambda>x. x \<notin> set ys) xs) e = count_list xs e" for e :: string and xs ys
    by (induction xs) auto
  show ?thesis
    by (auto simp: removed_licenses_def added_licenses_def c)
qed

theorem diff_lists_exact_witness:
  "set (removed_licenses [''B'', ''C''] [''A'', ''B'']) = {''C''}
   \<and> set (added_licenses [''A'', ''B''] [''B'', ''C'']) = {''A''}
   \<and> count_list (removed_licenses [''B'', ''C'', ''C''] [''A'', ''B'']) ''C'' = 2"
proof -
  have h: "''C'' \<notin> set [''A'', ''B'']" by simp
  show ?thesis
    using h diff_lists_exact [of "[''B'', ''C'']" "[''A'', ''B'']"]
      diff_lists_exact [of "[''B'', ''C'', ''C'']" "[''A'', ''B'']"]
    by auto
qed

text \<open>
  C8. Comparing a manifest with itself gives two empty lists, and for all entry lists the
  two difference lists have no entry in common.
\<close>

theorem diff_equal_and_disjoint:
  "removed_licenses m m = [] \<and> added_licenses m m = []
   \<and> set (removed_licenses b a) \<inter> set (added_licenses a b) = {}"
  by (auto simp: removed_licenses_def added_licenses_def)

theorem diff_equal_and_disjoint_witness:
  "removed_licenses [''A'', ''B''] [''A'', ''B''] = []
   \<and> added_licenses [''A'', ''B''] [''A'', ''B''] = []
   \<and> set (removed_licenses [''B'', ''C''] [''A'', ''B''])
       \<inter> set (added_licenses [''A'', ''B''] [''B'', ''C'']) = {}"
  using diff_equal_and_disjoint [of "[''A'', ''B'']" "[''B'', ''C'']" "[''A'', ''B'']"]
  by simp

subsection \<open>The generated list\<close>

text \<open>
  C5. For every discovery output, the list that \<^verbatim>\<open>get_licenses_list\<close> returns is sorted
  in the lexicographic order of the rows and contains the bootstrap entry
  \<^verbatim>\<open>core,"github.com/frapposelli/wwhrd",MIT\<close>; when no line of the output contains the
  marker \<^verbatim>\<open>msg="Found License"\<close>, the list is the bootstrap entry alone.
\<close>

theorem generated_list_sorted_bootstrap:
  "\<exists>licenses. get_licenses_list (Result stderr) = Inr licenses \<and> sorted licenses
     \<and> bootstrap \<in> set licenses
     \<and> ((\<forall>line \<in> set (str_split stderr LF). \<not> sublist found_license line)
          \<longrightarrow> licenses = [bootstrap])"
proof -
  define ls where "ls = (if stderr \<noteq> [] then scan_lines (str_split stderr LF) [bootstrap] else [bootstrap])"
  have eq: "get_licenses_list (Result stderr) = Inr (sort ls)"
    by (simp add: get_licenses_list_def ls_def)
  have mem: "bootstrap \<in> set ls"
    using scan_lines_appends[of "str_split stderr LF" "[bootstrap]"] by (auto simp: ls_def)
  have none: "ls = [bootstrap]" if "\<forall>line \<in> set (str_split stderr LF). \<not> sublist found_license line"
  proof -
    from that have "\<forall>line \<in> set (str_split stderr LF). str_find line found_license = - 1"
      using str_find_sublist by blast
    then show ?thesis by (simp add: ls_def scan_lines_no_marker)
  qed
  show ?thesis using eq mem none by auto
qed

theorem generated_list_sorted_bootstrap_witness:
  \<open>str_split ''level=info msg=start'' LF = [''level=info msg=start'']
   \<and> \<not> sublist found_license ''level=info msg=start''
   \<and> get_licenses_list (Result ''level=info msg=start'') = Inr [bootstrap]\<close>
proof -
  have s: \<open>str_split ''level=info msg=start'' LF = [''level=info msg=start'']\<close>
    by (simp add: LF_def)
  have n: \<open>\<not> sublist found_license ''level=info msg=start''\<close>
    by (simp add: found_license_def flip: str_find_sublist)
  have h: \<open>\<forall>line \<in> set (str_split ''level=info msg=start'' LF). \<not> sublist found_license line\<close>
    using s n by simp
  show ?thesis
    using s n h generated_list_sorted_bootstrap [of \<open>''level=info msg=start''\<close>] by auto
qed

subsection \<open>The result of the audit\<close>

text \<open>
  C4. Once the recorded manifest has been read and the discovery list computed,
  \<^verbatim>\<open>lint_licenses\<close> raises \<^verbatim>\<open>Exit(code=1)\<close> if and only if at least one of the two
  difference lists is not empty, and returns normally when both are empty. The lists are
  those of the recorded entries as compared (after the \<^verbatim>\<open>win32\<close> block where it applies).
  With the recorded manifest \<open>{A, B}\<close> and the new list \<open>{B, C}\<close> the missing list is
  \<open>[C]\<close>, the extra list is \<open>[A]\<close> and the exit code is 1.
\<close>

theorem lint_licenses_exit_code:
  assumes "read_licenses fs = Inr recorded"
    and "get_licenses_list r = Inr new_licenses"
    and "licenses = (if win32 then snd (hack_windows verbose recorded) else recorded)"
  shows "(snd (lint_licenses win32 verbose fs r) = Inl (Exit None 1)
            \<longleftrightarrow> removed_licenses new_licenses licenses \<noteq> []
                \<or> added_licenses licenses new_licenses \<noteq> [])
         \<and> (removed_licenses new_licenses licenses = []
              \<and> added_licenses licenses new_licenses = []
            \<longrightarrow> snd (lint_licenses win32 verbose fs r) = Inr ())"
  using assms by (auto simp: lint_licenses_def Let_def split: prod.splits)

theorem lint_licenses_exit_code_witness:
  \<open>read_licenses [license_file \<mapsto> header_row @ ''core,github.com/old,BSD'' @ [LF] @ bootstrap @ [LF] ]
     = Inr [''core,github.com/old,BSD'', bootstrap]
   \<and> get_licenses_list (Result ''msg="Found License" license=MIT package=github.com/foo'')
     = Inr [bootstrap, ''core,github.com/foo,MIT'']
   \<and> removed_licenses [bootstrap, ''core,github.com/foo,MIT''] [''core,github.com/old,BSD'', bootstrap]
     = [''core,github.com/foo,MIT'']
   \<and> added_licenses [''core,github.com/old,BSD'', bootstrap] [bootstrap, ''core,github.com/foo,MIT'']
     = [''core,github.com/old,BSD'']
   \<and> snd (lint_licenses False False
        [license_file \<mapsto> header_row @ ''core,github.com/old,BSD'' @ [LF] @ bootstrap @ [LF] ]
        (Result ''msg="Found License" license=MIT package=github.com/foo'')) = Inl (Exit None 1)\<close>
proof -
  have a: \<open>read_licenses [license_file \<mapsto> header_row @ ''core,github.com/old,BSD'' @ [LF] @ bootstrap @ [LF] ]
     = Inr [''core,github.com/old,BSD'', bootstrap]\<close>
    by (simp add: read_licenses_def header_row_def bootstrap_def LF_def CR_def rstrip_def isspace_def)
  have b: \<open>get_licenses_list (Result ''msg="Found License" license=MIT package=github.com/foo'')
     = Inr [bootstrap, ''core,github.com/foo,MIT'']\<close>
    by (simp add: get_licenses_list_def found_license_def bootstrap_def LF_def line_vals_def
        startswith_def format_entry_def)
  have c: \<open>removed_licenses [bootstrap, ''core,github.com/foo,MIT''] [''core,github.com/old,BSD'', bootstrap]
     = [''core,github.com/foo,MIT'']\<close>
    by (simp add: removed_licenses_def bootstrap_def)
  have d: \<open>added_licenses [''core,github.com/old,BSD'', bootstrap] [bootstrap, ''core,github.com/foo,MIT'']
     = [''core,github.com/old,BSD'']\<close>
    by (simp add: added_licenses_def bootstrap_def)
  show ?thesis
    using a b c d lint_licenses_exit_code [OF a b, of \<open>[''core,github.com/old,BSD'', bootstrap]\<close> False False]
    by simp
qed

subsection \<open>Regenerating the manifest\<close>

text \<open>
  C3, as the spec states it, fails: \<^verbatim>\<open>generate_licenses\<close> opens the file for writing and
  writes the header row before it calls \<^verbatim>\<open>get_licenses_list\<close>. When the file opens and
  the discovery tool fails, a manifest that held the bootstrap entry is left holding the
  header row alone.
\<close>

theorem generate_licenses_failure_counterexample:
  \<open>fst (generate_licenses False (\<lambda>name. True) license_file False
          [license_file \<mapsto> manifest_text [bootstrap] ] RunFailed) license_file
     = Some header_row
   \<and> header_row \<noteq> manifest_text [bootstrap]\<close>
  by (simp add: generate_licenses_def get_licenses_list_def write_text_def header_row_def
      manifest_text_def LF_def linesep_def)

text \<open>
  C3, amended. When the file cannot be opened for writing, the task ends with that error
  and no file is changed. When it can, no entry is written before the discovery list is
  complete: if discovery succeeds the file holds the header row followed by every entry
  of the list and the task returns; the file is emptied and the header row written before
  discovery runs, so if discovery fails the task ends with that failure and the file holds
  the header row alone, whatever it held before. No other file is ever changed.
\<close>

theorem generate_licenses_write:
  "(\<not> writable filename \<longrightarrow>
      generate_licenses win32 writable filename verbose fs r = (fs, [], Inl IOError))
   \<and> (writable filename \<and> get_licenses_list r = Inl e \<longrightarrow>
        generate_licenses win32 writable filename verbose fs r
          = (fs(filename \<mapsto> write_text win32 header_row), [], Inl e))
   \<and> (writable filename \<and> get_licenses_list r = Inr licenses \<longrightarrow>
        fst (generate_licenses win32 writable filename verbose fs r)
          = fs(filename \<mapsto> write_text win32 (manifest_text licenses))
        \<and> snd (snd (generate_licenses win32 writable filename verbose fs r)) = Inr ())
   \<and> (\<forall>other. other \<noteq> filename \<longrightarrow>
        fst (generate_licenses win32 writable filename verbose fs r) other = fs other)"
  by (auto simp: generate_licenses_def split: sum.splits)

theorem generate_licenses_write_witness:
  \<open>generate_licenses False (\<lambda>name. name = license_file) ''nodir/LICENSE-3rdparty.csv'' False
       [license_file \<mapsto> manifest_text [bootstrap] ] (Result [])
       = ([license_file \<mapsto> manifest_text [bootstrap] ], [], Inl IOError)
   \<and> get_licenses_list RunFailed = Inl UnexpectedExit
   \<and> generate_licenses False (\<lambda>name. name = license_file) license_file False
         [license_file \<mapsto> manifest_text [bootstrap] ] RunFailed
       = ([license_file \<mapsto> header_row], [], Inl UnexpectedExit)
   \<and> get_licenses_list (Result []) = Inr [bootstrap]
   \<and> fst (generate_licenses False (\<lambda>name. name = license_file) license_file False Map.empty
         (Result []))
       = [license_file \<mapsto> manifest_text [bootstrap] ]
   \<and> ''go.sum'' \<noteq> license_file
   \<and> fst (generate_licenses False (\<lambda>name. name = license_file) license_file False
         [''go.sum'' \<mapsto> ''x''] RunFailed) ''go.sum''
       = Some ''x''\<close>
proof -
  let ?w = \<open>\<lambda>name. name = license_file\<close>
  have n: "\<not> ?w ''nodir/LICENSE-3rdparty.csv''"
    by (simp add: license_file_def)
  have y: "?w license_file"
    by simp
  have a: "get_licenses_list RunFailed = Inl UnexpectedExit"
    by (simp add: get_licenses_list_def)
  have b: "get_licenses_list (Result []) = Inr [bootstrap]"
    by (simp add: get_licenses_list_def)
  have c: "''go.sum'' \<noteq> license_file"
    by (simp add: license_file_def)
  have w: "write_text False s = s" for s
    by (induction s) (simp_all add: write_text_def linesep_def)
  show ?thesis
    using n y a b c
      generate_licenses_write [of ?w "''nodir/LICENSE-3rdparty.csv''" False False
        "[license_file \<mapsto> manifest_text [bootstrap] ]" "Result []" UnexpectedExit "[]"]
      generate_licenses_write [of ?w license_file False False
        "[license_file \<mapsto> manifest_text [bootstrap] ]" RunFailed UnexpectedExit "[]"]
      generate_licenses_write [of ?w license_file False False
        Map.empty "Result []" UnexpectedExit "[bootstrap]"]
      generate_licenses_write [of ?w license_file False False
        "[''go.sum'' \<mapsto> ''x'']" RunFailed UnexpectedExit "[]"]
    by (simp add: w)
qed

subsection \<open>Entries with an empty license\<close>

text \<open>
  C7, as the spec states it, fails for the audit \<^verbatim>\<open>lint_licenses\<close>: it has no check of the
  license field. A recorded entry with an empty license that discovery reports too is
  accepted, and the audit ends with \<^verbatim>\<open>licenses ok\<close>.
\<close>

theorem lint_licenses_empty_license_counterexample:
  \<open>read_licenses [license_file \<mapsto> header_row @ bootstrap @ [LF] @ ''core,github.com/foo,'' @ [LF] ]
     = Inr [bootstrap, ''core,github.com/foo,'']
   \<and> lint_licenses False False
        [license_file \<mapsto> header_row @ bootstrap @ [LF] @ ''core,github.com/foo,'' @ [LF] ]
        (Result ''msg="Found License" package=github.com/foo'')
     = ([''Verify licenses'', ''licenses ok''], Inr ())\<close>
proof -
  have a: \<open>read_licenses [license_file \<mapsto> header_row @ bootstrap @ [LF] @ ''core,github.com/foo,'' @ [LF] ]
     = Inr [bootstrap, ''core,github.com/foo,'']\<close>
    by (simp add: read_licenses_def header_row_def bootstrap_def LF_def CR_def rstrip_def isspace_def)
  have b: \<open>get_licenses_list (Result ''msg="Found License" package=github.com/foo'')
     = Inr [bootstrap, ''core,github.com/foo,'']\<close>
    by (simp add: get_licenses_list_def found_license_def bootstrap_def LF_def line_vals_def
        startswith_def format_entry_def)
  show ?thesis
    using a b by (simp add: lint_licenses_def removed_licenses_def added_licenses_def)
qed

lemma check_entries_empty_license:
  assumes "\<forall>entry \<in> set before. \<exists>origin license.
             entry ''Origin'' = Some (Some origin) \<and> entry ''License'' = Some (Some license)
             \<and> license \<noteq> []"
    and "entry ''License'' = Some (Some [])"
    and "entry ''Origin'' = Some origin"
  shows "snd (check_entries (before @ entry # after) out license_deps)
           = Inl (Exit (Some (EmptyLicense origin)) 1)"
  using assms
proof (induction before arbitrary: out license_deps)
  case Nil
  then show ?case by simp
next
  case (Cons b before)
  then obtain o' l where "b ''Origin'' = Some (Some o')" "b ''License'' = Some (Some l)" "l \<noteq> []"
    by auto
  then show ?case using Cons by (simp add: Let_def)
qed

text \<open>
  C7, amended. The check belongs to \<^verbatim>\<open>lint_licenses_old\<close>: when \<^verbatim>\<open>go.sum\<close> and the manifest
  can be opened, the rows before the first row with an empty license have an origin and a
  non-empty license, and that row has an \<^verbatim>\<open>Origin\<close> field, the task raises
  \<^verbatim>\<open>Exit(code=1)\<close> naming that origin, whatever \<^verbatim>\<open>go.sum\<close> holds: the dependency sets are
  not compared. \<^verbatim>\<open>lint_licenses\<close> makes no such check.
\<close>

theorem lint_licenses_old_empty_license:
  assumes "fs ''go.sum'' = Some go_sum"
    and "fs license_file = Some raw"
    and "DictReader (universal_newlines raw) = before @ entry # after"
    and "\<forall>e \<in> set before. \<exists>origin license.
           e ''Origin'' = Some (Some origin) \<and> e ''License'' = Some (Some license)
           \<and> license \<noteq> []"
    and "entry ''License'' = Some (Some [])"
    and "entry ''Origin'' = Some origin"
  shows "snd (lint_licenses_old DictReader fs) = Inl (Exit (Some (EmptyLicense origin)) 1)"
proof -
  have "snd (check_entries (before @ entry # after) [] {})
          = Inl (Exit (Some (EmptyLicense origin)) 1)"
    using assms(4-6) by (rule check_entries_empty_license)
  then show ?thesis
    using assms(1-3)
    by (auto simp: lint_licenses_old_def Let_def split: prod.splits sum.splits)
qed

theorem lint_licenses_old_empty_license_witness:
  \<open>snd (lint_licenses_old
          (\<lambda>text. [ [''Component'' \<mapsto> Some ''core'', ''Origin'' \<mapsto> Some ''github.com/a/b'',
                      ''License'' \<mapsto> Some ''MIT''],
                    [''Component'' \<mapsto> Some ''core'', ''Origin'' \<mapsto> Some ''github.com/foo/bar'',
                      ''License'' \<mapsto> Some [] ] ])
          [''go.sum'' \<mapsto> [], license_file \<mapsto> header_row])
     = Inl (Exit (Some (EmptyLicense (Some ''github.com/foo/bar''))) 1)\<close>
proof -
  let ?a = \<open>[''Component'' \<mapsto> Some ''core'', ''Origin'' \<mapsto> Some ''github.com/a/b'',
             ''License'' \<mapsto> Some ''MIT'']\<close>
  let ?b = \<open>[''Component'' \<mapsto> Some ''core'', ''Origin'' \<mapsto> Some ''github.com/foo/bar'',
             ''License'' \<mapsto> Some [] ]\<close>
  let ?fs = \<open>[''go.sum'' \<mapsto> [], license_file \<mapsto> header_row]\<close>
  have h1: \<open>?fs ''go.sum'' = Some []\<close>
    by (simp add: license_file_def)
  have h2: \<open>?fs license_file = Some header_row\<close>
    by simp
  have h3: \<open>(\<lambda>text. [?a, ?b]) (universal_newlines header_row) = [?a] @ ?b # []\<close>
    by simp
  have h4: \<open>\<forall>e \<in> set [?a]. \<exists>origin license.
              e ''Origin'' = Some (Some origin) \<and> e ''License'' = Some (Some license)
              \<and> license \<noteq> []\<close>
    by simp
  have h5: \<open>?b ''License'' = Some (Some [])\<close>
    by simp
  have h6: \<open>?b ''Origin'' = Some (Some ''github.com/foo/bar'')\<close>
    by simp
  show ?thesis
    using lint_licenses_old_empty_license [of ?fs \<open>[]\<close> header_row \<open>\<lambda>text. [?a, ?b]\<close>, OF h1 h2 h3 h4 h5 h6]
    by simp
qed

subsection \<open>What reading a recorded row strips\<close>

lemma rstrip_suffix: "\<exists>ws. line = rstrip line @ ws \<and> (\<forall>c \<in> set ws. isspace c)"
proof -
  have "rev (dropWhile isspace (rev line)) @ rev (takeWhile isspace (rev line))
          = rev (takeWhile isspace (rev line) @ dropWhile isspace (rev line))"
    by (simp only: rev_append)
  also have "\<dots> = line"
    by simp
  finally have "line = rstrip line @ rev (takeWhile isspace (rev line))"
    by (simp only: rstrip_def)
  moreover have "\<forall>c \<in> set (rev (takeWhile isspace (rev line))). isspace c"
    by (auto dest: set_takeWhileD)
  ultimately show ?thesis by blast
qed

lemma rstrip_last: "rstrip line \<noteq> [] \<Longrightarrow> \<not> isspace (last (rstrip line))"
  by (simp add: rstrip_def last_rev hd_dropWhile)

lemma rstrip_line: "e = [] \<or> \<not> isspace (last e) \<Longrightarrow> rstrip (e @ [LF]) = e"
proof (cases e rule: rev_cases)
  case Nil
  then show ?thesis by (simp add: rstrip_def isspace_def LF_def)
next
  case (snoc xs x)
  assume "e = [] \<or> \<not> isspace (last e)"
  with snoc have "\<not> isspace x" by simp
  then show ?thesis using snoc by (simp add: rstrip_def isspace_def LF_def)
qed

text \<open>
  C6, as the spec states it, fails: \<^verbatim>\<open>rstrip()\<close> removes every trailing whitespace
  character of a recorded row, not the newline alone. A recorded row that is the bootstrap
  entry followed by two spaces is read as the bootstrap entry and the audit succeeds.
\<close>

theorem trailing_whitespace_counterexample:
  \<open>read_licenses [license_file \<mapsto> header_row @ bootstrap @ ''  '' @ [LF] ] = Inr [bootstrap]
   \<and> bootstrap @ ''  '' \<noteq> bootstrap
   \<and> lint_licenses False False [license_file \<mapsto> header_row @ bootstrap @ ''  '' @ [LF] ] (Result [])
     = ([''Verify licenses'', ''licenses ok''], Inr ())\<close>
proof -
  have a: \<open>read_licenses [license_file \<mapsto> header_row @ bootstrap @ ''  '' @ [LF] ] = Inr [bootstrap]\<close>
    by (simp add: read_licenses_def header_row_def bootstrap_def LF_def CR_def rstrip_def isspace_def)
  have b: \<open>get_licenses_list (Result []) = Inr [bootstrap]\<close>
    by (simp add: get_licenses_list_def)
  show ?thesis
    using a b by (simp add: lint_licenses_def removed_licenses_def added_licenses_def)
qed

text \<open>
  C6, amended. Membership in the two difference lists is equality of the strings, with no
  case folding and no change to whitespace inside an entry. At read time each line after
  the header loses its whole run of trailing whitespace characters (the newline and any
  other) and nothing else, so recorded rows that differ only in trailing whitespace are
  the same entry, and rows that differ anywhere else are distinct.
\<close>

theorem membership_exact_after_rstrip:
  "(e \<in> set (removed_licenses new_licenses licenses)
      \<longleftrightarrow> e \<in> set new_licenses \<and> (\<forall>l \<in> set licenses. l \<noteq> e))
   \<and> (e \<in> set (added_licenses licenses new_licenses)
      \<longleftrightarrow> e \<in> set licenses \<and> (\<forall>n \<in> set new_licenses. n \<noteq> e))
   \<and> (fs license_file = Some raw \<and> readlines (universal_newlines raw) = header # lines
      \<longrightarrow> read_licenses fs = Inr (map rstrip lines))
   \<and> (\<exists>ws. line = rstrip line @ ws \<and> (\<forall>c \<in> set ws. isspace c))
   \<and> (rstrip line \<noteq> [] \<longrightarrow> \<not> isspace (last (rstrip line)))"
proof -
  have 1: "e \<in> set (removed_licenses new_licenses licenses)
      \<longleftrightarrow> e \<in> set new_licenses \<and> (\<forall>l \<in> set licenses. l \<noteq> e)"
    by (auto simp: removed_licenses_def)
  have 2: "e \<in> set (added_licenses licenses new_licenses)
      \<longleftrightarrow> e \<in> set licenses \<and> (\<forall>n \<in> set new_licenses. n \<noteq> e)"
    by (auto simp: added_licenses_def)
  have 3: "fs license_file = Some raw \<and> readlines (universal_newlines raw) = header # lines
      \<longrightarrow> read_licenses fs = Inr (map rstrip lines)"
    by (simp add: read_licenses_def)
  show ?thesis
    using 1 2 3 rstrip_suffix [of line] rstrip_last [of line] by blast
qed

theorem membership_exact_after_rstrip_witness:
  \<open>set (removed_licenses [''core,a,mit'', ''core,a, MIT'', ''core,a,MIT''] [''core,a,MIT''])
     = {''core,a,mit'', ''core,a, MIT''}
   \<and> readlines (universal_newlines (header_row @ ''core,a,MIT '' @ [CHR 0x09, LF]))
     = [header_row, ''core,a,MIT '' @ [CHR 0x09, LF] ]
   \<and> read_licenses [license_file \<mapsto> header_row @ ''core,a,MIT '' @ [CHR 0x09, LF] ]
     = Inr [''core,a,MIT'']\<close>
proof -
  let ?raw = \<open>header_row @ ''core,a,MIT '' @ [CHR 0x09, LF]\<close>
  have m: \<open>set (removed_licenses [''core,a,mit'', ''core,a, MIT'', ''core,a,MIT''] [''core,a,MIT''])
     = {''core,a,mit'', ''core,a, MIT''}\<close>
    by (auto simp: removed_licenses_def)
  have f: \<open>[license_file \<mapsto> ?raw] license_file = Some ?raw\<close>
    by simp
  have l: \<open>readlines (universal_newlines ?raw) = [header_row, ''core,a,MIT '' @ [CHR 0x09, LF] ]\<close>
    by (simp add: header_row_def LF_def CR_def)
  have s: \<open>rstrip (''core,a,MIT '' @ [CHR 0x09, LF]) = ''core,a,MIT''\<close>
    by (simp add: rstrip_def isspace_def LF_def)
  show ?thesis
    using m f l s
      membership_exact_after_rstrip [of \<open>''core,a,mit''\<close>
        \<open>[''core,a,mit'', ''core,a, MIT'', ''core,a,MIT'']\<close> \<open>[''core,a,MIT'']\<close>
        \<open>[license_file \<mapsto> ?raw]\<close> ?raw header_row \<open>[''core,a,MIT '' @ [CHR 0x09, LF] ]\<close>
        \<open>''core,a,MIT '' @ [CHR 0x09, LF]\<close>]
    by simp
qed

subsection \<open>Writing the manifest and reading it back\<close>

lemma universal_newlines_Cons:
  "c \<noteq> CR \<Longrightarrow> universal_newlines (c # cs) = c # universal_newlines cs"
  by (cases cs) simp_all

lemma universal_newlines_CRLF:
  "universal_newlines (CR # LF # cs) = LF # universal_newlines cs"
  by simp

lemma LF_neq_CR: "LF \<noteq> CR"
  by (simp add: LF_def CR_def)

lemma universal_newlines_write_text:
  "CR \<notin> set s \<Longrightarrow> universal_newlines (write_text win32 s) = s"
proof (induction s)
  case Nil
  then show ?case by (simp add: write_text_def)
next
  case (Cons c s)
  then have ih: "universal_newlines (write_text win32 s) = s" and c: "c \<noteq> CR" by auto
  have w: "write_text win32 (c # s) = (if c = LF then linesep win32 else [c]) @ write_text win32 s"
    by (simp add: write_text_def)
  show ?case
  proof (cases "c = LF")
    case True
    then show ?thesis using ih w LF_neq_CR
      by (cases win32) (simp_all add: linesep_def universal_newlines_Cons)
  next
    case False
    then show ?thesis using ih w c by (simp add: universal_newlines_Cons)
  qed
qed

lemma readlines_line:
  "LF \<notin> set l \<Longrightarrow> readlines (l @ LF # rest) = (l @ [LF]) # readlines rest"
  by (induction l) auto

lemma readlines_entries:
  "\<forall>e \<in> set es. LF \<notin> set e \<Longrightarrow>
     readlines (concat (map (\<lambda>e. e @ [LF]) es)) = map (\<lambda>e. e @ [LF]) es"
  by (induction es) (simp_all add: readlines_line)

lemma readlines_manifest_text:
  assumes "\<forall>e \<in> set es. LF \<notin> set e"
  shows "readlines (manifest_text es) = header_row # map (\<lambda>e. e @ [LF]) es"
proof -
  have "LF \<notin> set ''Component,Origin,License''" by (simp add: LF_def)
  then have "readlines (''Component,Origin,License'' @ LF # concat (map (\<lambda>e. e @ [LF]) es))
     = (''Component,Origin,License'' @ [LF]) # readlines (concat (map (\<lambda>e. e @ [LF]) es))"
    by (rule readlines_line)
  then show ?thesis using assms by (simp add: manifest_text_def header_row_def readlines_entries)
qed

lemma CR_notin_manifest_text:
  "\<forall>e \<in> set es. CR \<notin> set e \<Longrightarrow> CR \<notin> set (manifest_text es)"
  by (auto simp: manifest_text_def header_row_def CR_def LF_def)

lemma read_written_manifest:
  assumes "\<forall>e \<in> set licenses. LF \<notin> set e \<and> CR \<notin> set e \<and> (e = [] \<or> \<not> isspace (last e))"
  shows "read_licenses (fs(license_file \<mapsto> write_text win32 (manifest_text licenses))) = Inr licenses"
proof -
  have cr: "CR \<notin> set (manifest_text licenses)"
    using assms by (intro CR_notin_manifest_text) blast
  have rl: "readlines (manifest_text licenses) = header_row # map (\<lambda>e. e @ [LF]) licenses"
    using assms by (intro readlines_manifest_text) blast
  have "map rstrip (map (\<lambda>e. e @ [LF]) licenses) = licenses"
    using assms by (induction licenses) (simp_all add: rstrip_line)
  then show ?thesis
    using cr rl by (simp add: read_licenses_def universal_newlines_write_text)
qed

text \<open>
  C9, as the spec states it, fails: an entry that ends with a whitespace character loses
  it when it is read back. Discovery output whose license value ends with a tab gives such
  an entry, with no comma inside a field.
\<close>

theorem manifest_roundtrip_counterexample:
  \<open>get_licenses_list
      (Result (''msg="Found License" license=MIT'' @ [CHR 0x09] @ '' package=github.com/foo''))
     = Inr [bootstrap, ''core,github.com/foo,MIT'' @ [CHR 0x09] ]
   \<and> read_licenses (fst (generate_licenses False (\<lambda>name. True) license_file False Map.empty
        (Result (''msg="Found License" license=MIT'' @ [CHR 0x09] @ '' package=github.com/foo''))))
     = Inr [bootstrap, ''core,github.com/foo,MIT'']
   \<and> [bootstrap, ''core,github.com/foo,MIT'' @ [CHR 0x09] ] \<noteq> [bootstrap, ''core,github.com/foo,MIT'']\<close>
proof -
  have g: \<open>get_licenses_list
      (Result (''msg="Found License" license=MIT'' @ [CHR 0x09] @ '' package=github.com/foo''))
     = Inr [bootstrap, ''core,github.com/foo,MIT'' @ [CHR 0x09] ]\<close>
    by (simp add: get_licenses_list_def found_license_def bootstrap_def LF_def line_vals_def
        startswith_def format_entry_def)
  have r: \<open>read_licenses [license_file \<mapsto> write_text False
               (manifest_text [bootstrap, ''core,github.com/foo,MIT'' @ [CHR 0x09] ])]
     = Inr [bootstrap, ''core,github.com/foo,MIT'']\<close>
    by (simp add: read_licenses_def write_text_def linesep_def manifest_text_def header_row_def
        bootstrap_def LF_def CR_def rstrip_def isspace_def)
  show ?thesis
    using g r by (simp add: generate_licenses_def)
qed

text \<open>
  C9, amended. For every entry list in which no entry contains a newline or a carriage
  return and no entry ends with a whitespace character, writing the manifest (the header
  row, then one entry per line) and reading it back with \<^verbatim>\<open>lint_licenses\<close>'s reader gives
  the same sequence of entries, on either platform; so does reading the file that
  \<^verbatim>\<open>generate_licenses\<close> wrote for such a list, when it could open the file. Commas play
  no part.
\<close>

theorem manifest_roundtrip:
  assumes "\<forall>e \<in> set licenses. LF \<notin> set e \<and> CR \<notin> set e \<and> (e = [] \<or> \<not> isspace (last e))"
  shows "read_licenses (fs(license_file \<mapsto> write_text win32 (manifest_text licenses)))
           = Inr licenses
         \<and> (writable license_file \<and> get_licenses_list r = Inr licenses \<longrightarrow>
              read_licenses (fst (generate_licenses win32 writable license_file verbose fs r))
                = Inr licenses)"
  using read_written_manifest [OF assms] by (simp add: generate_licenses_def)

theorem manifest_roundtrip_witness:
  \<open>LF \<notin> set ''core,github.com/foo,MIT'' \<and> CR \<notin> set ''core,github.com/foo,MIT''
   \<and> \<not> isspace (last ''core,github.com/foo,MIT'')
   \<and> read_licenses [license_file \<mapsto> write_text True (manifest_text [''core,github.com/foo,MIT''])]
       = Inr [''core,github.com/foo,MIT'']\<close>
proof -
  have a: \<open>LF \<notin> set ''core,github.com/foo,MIT''\<close> by (simp add: LF_def)
  have b: \<open>CR \<notin> set ''core,github.com/foo,MIT''\<close> by (simp add: CR_def)
  have c: \<open>\<not> isspace (last ''core,github.com/foo,MIT'')\<close> by (simp add: isspace_def)
  have h: \<open>\<forall>e \<in> set [''core,github.com/foo,MIT''].
             LF \<notin> set e \<and> CR \<notin> set e \<and> (e = [] \<or> \<not> isspace (last e))\<close>
    using a b c by simp
  show ?thesis
    using a b c manifest_roundtrip [OF h, of Map.empty True] by simp
qed

subsection \<open>The entries of a marker line\<close>

lemma not_both: "startswith val ''license='' \<Longrightarrow> \<not> startswith val ''package=''"
  by (auto simp: startswith_def prefix_def)

lemma recent_license_Cons:
  "recent_license initial (val # earlier) =
     recent_license (if startswith val ''license='' then drop (length ''license='') val
                     else initial) earlier"
  by (cases "license_tokens earlier") (auto simp: recent_license_def license_tokens_def)

lemma recent_license_Nil: "recent_license initial [] = initial"
  by (simp add: recent_license_def license_tokens_def)

lemma package_positions_Cons:
  "package_positions (val # vals) =
     (if startswith val ''package='' then [0] else []) @ map Suc (package_positions vals)"
proof -
  have "[0..<length (val # vals)] = 0 # map Suc [0..<length vals]"
    by (simp add: upt_conv_Cons map_Suc_upt del: upt_Suc)
  then show ?thesis
    by (simp add: package_positions_def filter_map comp_def)
qed

lemma claimed_entries_from_Cons:
  "claimed_entries_from initial (val # vals) =
     (if startswith val ''package=''
      then [format_entry (drop (length ''package='') val) initial] else [])
     @ claimed_entries_from
         (if startswith val ''license='' then drop (length ''license='') val else initial) vals"
  by (simp add: claimed_entries_from_def package_positions_Cons recent_license_Cons
      recent_license_Nil comp_def)

lemma scan_vals_claimed_from:
  "scan_vals vals license package licenses = licenses @ claimed_entries_from license vals"
proof (induction vals arbitrary: license package licenses)
  case Nil
  then show ?case by (simp add: claimed_entries_from_def package_positions_def)
next
  case (Cons val vals)
  show ?case
  proof (cases "startswith val ''license=''")
    case True
    then show ?thesis
      using not_both [OF True] by (simp only: scan_vals.simps claimed_entries_from_Cons Cons.IH) simp
  next
    case False
    then show ?thesis
      by (simp only: scan_vals.simps claimed_entries_from_Cons Cons.IH Let_def) simp
  qed
qed

lemma scan_lines_claimed:
  "scan_lines lines licenses = licenses @ concat (map line_entries lines)"
proof (induction lines arbitrary: licenses)
  case Nil
  then show ?case by simp
next
  case (Cons line lines)
  show ?case
  proof (cases "str_find line found_license = - 1")
    case True
    then have "\<not> sublist found_license line" using str_find_sublist by blast
    then show ?thesis using True Cons.IH by (simp add: line_entries_def)
  next
    case False
    then have "sublist found_license line" using str_find_sublist by blast
    then show ?thesis
      using False Cons.IH
      by (simp add: line_entries_def Let_def scan_vals_claimed_from claimed_entries_def)
  qed
qed

lemma found_license_not_in_Nil: "\<not> sublist found_license []"
  by (simp add: found_license_def)

lemma get_licenses_list_claimed:
  "get_licenses_list (Result stderr)
     = Inr (sort (bootstrap # concat (map line_entries (str_split stderr LF))))"
proof (cases "stderr = []")
  case True
  have "line_entries [] = []"
    using found_license_not_in_Nil by (simp only: line_entries_def if_False)
  then show ?thesis
    using True by (simp add: get_licenses_list_def)
next
  case False
  then show ?thesis
    by (simp add: get_licenses_list_def scan_lines_claimed)
qed

lemma length_package_positions:
  "length (package_positions vals) = length (filter (\<lambda>val. startswith val ''package='') vals)"
  by (induction vals) (simp_all add: package_positions_Cons, simp add: package_positions_def)

lemma claimed_entries_from_Nil: "claimed_entries_from initial [] = []"
  by (simp add: claimed_entries_from_def package_positions_def)

lemma recent_license_at:
  assumes "i < j" and "j \<le> length vals" and "vals ! i = ''license='' @ license"
    and "\<forall>k. i < k \<and> k < j \<longrightarrow> \<not> startswith (vals ! k) ''license=''"
  shows "recent_license initial (take j vals) = license"
proof -
  let ?xs = "take j vals"
  have i: "i < length ?xs" using assms(1,2) by simp
  have split: "?xs = take i ?xs @ ?xs ! i # drop (Suc i) ?xs"
    using i by (rule id_take_nth_drop)
  have at: "?xs ! i = ''license='' @ license"
    using assms(1,3) by simp
  have "\<not> startswith x ''license=''" if "x \<in> set (drop (Suc i) ?xs)" for x
  proof -
    from that obtain n where n: "n < length (drop (Suc i) ?xs)" "x = drop (Suc i) ?xs ! n"
      by (auto simp: in_set_conv_nth)
    then have "x = vals ! (Suc i + n)" and "Suc i + n < j"
      using assms(2) by auto
    then show ?thesis using assms(4) by simp
  qed
  then have rest: "license_tokens (drop (Suc i) ?xs) = []"
    by (auto simp: license_tokens_def filter_empty_conv)
  have "license_tokens ?xs = license_tokens (take i ?xs) @ license_tokens [?xs ! i]
          @ license_tokens (drop (Suc i) ?xs)"
    by (subst split) (simp add: license_tokens_def)
  then have "license_tokens ?xs = license_tokens (take i ?xs) @ [''license='' @ license]"
    using rest at by (simp add: license_tokens_def startswith_def)
  then have ne: "license_tokens ?xs \<noteq> []"
    and la: "last (license_tokens ?xs) = ''license='' @ license"
    by simp_all
  show ?thesis
  proof (cases "license_tokens ?xs")
    case Nil
    then show ?thesis using ne by simp
  next
    case (Cons t ts)
    have "recent_license initial ?xs = drop (length ''license='') (last (license_tokens ?xs))"
      by (simp only: recent_license_def Cons list.case)
    then show ?thesis by (simp only: la) simp
  qed
qed

text \<open>
  C10, as the claim states it, fails: the parser reads only the part of the line after
  the first marker, so a token before the marker counts for nothing. On
  \<^verbatim>\<open>license=MIT msg="Found License" package=x\<close> the entry has an empty license although
  a \<^verbatim>\<open>license=\<close> token comes earlier on the line, and on
  \<^verbatim>\<open>package=early msg="Found License" package=x\<close> there is one entry for two
  \<^verbatim>\<open>package=\<close> tokens. The claim's reading of each line is \<open>claimed_entries\<close> of all the
  tokens of the line.
\<close>

theorem marker_line_tokens_counterexample:
  \<open>scan_lines [''license=MIT msg="Found License" package=x''] [] = [''core,x,'']
   \<and> claimed_entries (str_split ''license=MIT msg="Found License" package=x'' CHR '' '')
     = [''core,x,MIT'']
   \<and> scan_lines [''package=early msg="Found License" package=x''] [] = [''core,x,'']
   \<and> claimed_entries (str_split ''package=early msg="Found License" package=x'' CHR '' '')
     = [''core,early,'', ''core,x,'']\<close>
  by (simp add: found_license_def line_vals_def startswith_def format_entry_def
      claimed_entries_def claimed_entries_from_Cons claimed_entries_from_Nil)

text \<open>
  C10, amended. On a line that contains the marker, the tokens are the values after the
  first marker of the line, split at single spaces; the tokens before the marker are not
  read. The parser appends exactly the entries \<open>claimed_entries\<close> of these tokens: one
  entry for each \<^verbatim>\<open>package=\<close> token among them, in order, each paired with the value of
  the most recent \<^verbatim>\<open>license=\<close> token before it among them, and with the empty string
  when there is none; a \<^verbatim>\<open>license=\<close> token alone gives no entry. The number of entries
  is the number of \<^verbatim>\<open>package=\<close> tokens after the marker, and the list returned is the
  sorted list of the bootstrap entry and the entries of every line.
\<close>

theorem marker_line_entries:
  "(sublist found_license line \<longrightarrow>
      scan_lines [line] licenses
        = licenses @ claimed_entries (line_vals line (str_find line found_license)))
   \<and> length (claimed_entries vals) = length (filter (\<lambda>val. startswith val ''package='') vals)
   \<and> get_licenses_list (Result stderr)
        = Inr (sort (bootstrap # concat (map line_entries (str_split stderr LF))))"
  by (simp add: scan_lines_claimed line_entries_def claimed_entries_def claimed_entries_from_def
      length_package_positions get_licenses_list_claimed)

theorem marker_line_entries_witness:
  \<open>sublist found_license ''msg="Found License" package=a license=MIT package=b license=BSD''
   \<and> line_vals ''msg="Found License" package=a license=MIT package=b license=BSD''
        (str_find ''msg="Found License" package=a license=MIT package=b license=BSD'' found_license)
     = [ [], ''package=a'', ''license=MIT'', ''package=b'', ''license=BSD'']
   \<and> claimed_entries [ [], ''package=a'', ''license=MIT'', ''package=b'', ''license=BSD'']
     = [''core,a,'', ''core,b,MIT'']
   \<and> scan_lines [''msg="Found License" package=a license=MIT package=b license=BSD''] [bootstrap]
     = [bootstrap, ''core,a,'', ''core,b,MIT'']\<close>
proof -
  let ?line = \<open>''msg="Found License" package=a license=MIT package=b license=BSD''\<close>
  let ?vals = \<open>[ [], ''package=a'', ''license=MIT'', ''package=b'', ''license=BSD'']\<close>
  have h: \<open>sublist found_license ?line\<close>
    by (simp add: found_license_def flip: str_find_sublist)
  have v: \<open>line_vals ?line (str_find ?line found_license) = ?vals\<close>
    by (simp add: line_vals_def found_license_def)
  have c: \<open>claimed_entries ?vals = [''core,a,'', ''core,b,MIT'']\<close>
    by (simp add: claimed_entries_def claimed_entries_from_Cons claimed_entries_from_Nil
        startswith_def format_entry_def)
  show ?thesis
    using h v c marker_line_entries [of ?line \<open>[bootstrap]\<close> ?vals \<open>[]\<close>]
    by simp
qed

text \<open>
  C2, as the spec states it, fails: on the line
  \<^verbatim>\<open>msg="Found License" package=github.com/foo license=MIT\<close> the entry is appended when
  the \<^verbatim>\<open>package=\<close> token is read, before the \<^verbatim>\<open>license=\<close> token, and is
  \<^verbatim>\<open>core,github.com/foo,\<close>.
\<close>

theorem package_before_license_counterexample:
  \<open>get_licenses_list (Result ''msg="Found License" package=github.com/foo license=MIT'')
     = Inr [bootstrap, ''core,github.com/foo,'']
   \<and> ''core,github.com/foo,MIT'' \<notin> set [bootstrap, ''core,github.com/foo,'']\<close>
  by (simp add: get_licenses_list_def found_license_def bootstrap_def LF_def line_vals_def
      startswith_def format_entry_def)

text \<open>
  C2, amended. For every line of the discovery output that contains the marker and has,
  among its tokens after the marker, a \<^verbatim>\<open>license=\<close> token followed later by a
  \<^verbatim>\<open>package=\<close> token with no other \<^verbatim>\<open>license=\<close> token between them, the list returned
  contains the entry \<^verbatim>\<open>core,<package>,<license>\<close>; the line
  \<^verbatim>\<open>msg="Found License" license=MIT package=github.com/foo\<close> gives
  \<^verbatim>\<open>core,github.com/foo,MIT\<close>.
\<close>

theorem license_before_package_entry:
  assumes "line \<in> set (str_split stderr LF)"
    and "sublist found_license line"
    and "vals = line_vals line (str_find line found_license)"
    and "i < j" and "j < length vals"
    and "vals ! i = ''license='' @ license"
    and "vals ! j = ''package='' @ package"
    and "\<forall>k. i < k \<and> k < j \<longrightarrow> \<not> startswith (vals ! k) ''license=''"
  shows "\<exists>licenses. get_licenses_list (Result stderr) = Inr licenses
           \<and> format_entry package license \<in> set licenses"
proof -
  have r: "recent_license [] (take j vals) = license"
    using assms(4) assms(5) assms(6) assms(8) by (intro recent_license_at) auto
  have "j \<in> set (package_positions vals)"
    using assms(5,7) by (simp add: package_positions_def startswith_def)
  then have "format_entry (drop (length ''package='') (vals ! j)) (recent_license [] (take j vals))
               \<in> set (claimed_entries vals)"
    unfolding claimed_entries_def claimed_entries_from_def set_map by (rule imageI)
  then have "format_entry package license \<in> set (line_entries line)"
    using r assms(2,3,7) by (simp add: line_entries_def)
  then have "format_entry package license
               \<in> set (bootstrap # concat (map line_entries (str_split stderr LF)))"
    using assms(1) by auto
  then have "format_entry package license
               \<in> set (sort (bootstrap # concat (map line_entries (str_split stderr LF))))"
    by (simp only: set_sort)
  then show ?thesis
    by (simp add: get_licenses_list_claimed)
qed

theorem license_before_package_entry_witness:
  \<open>str_split ''msg="Found License" license=MIT package=github.com/foo'' LF
     = [''msg="Found License" license=MIT package=github.com/foo'']
   \<and> sublist found_license ''msg="Found License" license=MIT package=github.com/foo''
   \<and> line_vals ''msg="Found License" license=MIT package=github.com/foo''
        (str_find ''msg="Found License" license=MIT package=github.com/foo'' found_license)
     = [ [], ''license=MIT'', ''package=github.com/foo'']
   \<and> get_licenses_list (Result ''msg="Found License" license=MIT package=github.com/foo'')
     = Inr [bootstrap, ''core,github.com/foo,MIT'']
   \<and> format_entry ''github.com/foo'' ''MIT'' = ''core,github.com/foo,MIT''\<close>
proof -
  let ?line = \<open>''msg="Found License" license=MIT package=github.com/foo''\<close>
  let ?vals = \<open>[ [], ''license=MIT'', ''package=github.com/foo'']\<close>
  have s: \<open>str_split ?line LF = [?line]\<close>
    by (simp add: LF_def)
  have h1: \<open>?line \<in> set (str_split ?line LF)\<close>
    using s by simp
  have h2: \<open>sublist found_license ?line\<close>
    by (simp add: found_license_def flip: str_find_sublist)
  have v: \<open>line_vals ?line (str_find ?line found_license) = ?vals\<close>
    by (simp add: line_vals_def found_license_def)
  have h3: \<open>?vals = line_vals ?line (str_find ?line found_license)\<close>
    using v by simp
  have h4: \<open>(1::nat) < 2\<close> by simp
  have h5: \<open>2 < length ?vals\<close> by simp
  have h6: \<open>?vals ! 1 = ''license='' @ ''MIT''\<close> by simp
  have h7: \<open>?vals ! 2 = ''package='' @ ''github.com/foo''\<close> by simp
  have h8: \<open>\<forall>k. 1 < k \<and> k < 2 \<longrightarrow> \<not> startswith (?vals ! k) ''license=''\<close> by auto
  have g: \<open>get_licenses_list (Result ?line) = Inr [bootstrap, ''core,github.com/foo,MIT'']\<close>
    by (simp add: get_licenses_list_def found_license_def bootstrap_def LF_def line_vals_def
        startswith_def format_entry_def)
  have f: \<open>format_entry ''github.com/foo'' ''MIT'' = ''core,github.com/foo,MIT''\<close>
    by (simp add: format_entry_def)
  show ?thesis
    using s h2 v g f license_before_package_entry [OF h1 h2 h3 h4 h5 h6 h7 h8]
    by simp
qed

end
